theory Spec2Isabelle
  imports Complex_Main "HOL-Library.Word"
begin

section \<open>The HTTP transaction core of proxygen: data model\<close>

text \<open>
  The embedding follows the class \<^verbatim>\<open>HTTPTransaction\<close> of
  \<^verbatim>\<open>proxygen/lib/http/session/HTTPTransaction.h\<close> and the state-machine data of
  \<^verbatim>\<open>HTTPTransactionIngressSM.h\<close>. A member function becomes a function on a record
  of the member variables; a fatal \<^verbatim>\<open>CHECK\<close> becomes the left summand of a sum
  type; an unsigned fixed-width member is a word of that width. Member names lose
  their trailing underscore (\<^verbatim>\<open>id_\<close> is \<open>id'\<close>, since \<open>id\<close> is the identity
  function of HOL).
\<close>

subsection \<open>Enumerations\<close>

text \<open>
  Modelled from the spec: \<^verbatim>\<open>TransportDirection\<close> (declared outside the sources).
  The direction of a transaction is "one of {upstream, downstream}"; the names are
  those the header compares \<^verbatim>\<open>direction_\<close> with.
\<close>

datatype TransportDirection = DOWNSTREAM | UPSTREAM

text \<open>
  Modelled from the spec: \<^verbatim>\<open>HTTPException::Direction\<close> (declared outside the
  sources). "Errors carry a direction tag (ingress / egress / both)"; the header
  names \<^verbatim>\<open>INGRESS\<close> and \<^verbatim>\<open>EGRESS\<close>.
\<close>

datatype Direction = INGRESS | EGRESS | INGRESS_AND_EGRESS

text \<open>
  Modelled from the spec: \<^verbatim>\<open>ErrorCode\<close> (declared outside the sources), the closed
  enumeration of protocol error codes of section 6; the header names
  \<^verbatim>\<open>PROTOCOL_ERROR\<close>.
\<close>

datatype ErrorCode =
    NO_ERROR | PROTOCOL_ERROR | INTERNAL_ERROR | FLOW_CONTROL_ERROR | STREAM_CLOSED
  | FRAME_SIZE_ERROR | REFUSED_STREAM | CANCEL | COMPRESSION_ERROR | CONNECT_ERROR
  | ENHANCE_YOUR_CALM | INADEQUATE_SECURITY | HTTP_1_1_REQUIRED

text \<open>
  \<^verbatim>\<open>HTTPTransactionIngressSMData::State\<close> and \<^verbatim>\<open>::Event\<close>, enumerator by enumerator,
  with the counting sentinels \<^verbatim>\<open>NumStates\<close> and \<^verbatim>\<open>NumEvents\<close> ("must be last").
\<close>

datatype IngressState =
    Start | HeadersReceived | RegularBodyReceived | ChunkHeaderReceived
  | ChunkBodyReceived | ChunkCompleted | TrailersReceived | UpgradeComplete
  | EOMQueued | ReceivingDone | NumStates

datatype IngressEvent =
    onHeaders | onBody | onChunkHeader | onChunkComplete | onTrailers | onUpgrade
  | onEOM | eomFlushed | NumEvents

text \<open>
  Modelled from the spec: \<^verbatim>\<open>HTTPTransactionEgressSM::State\<close> and \<^verbatim>\<open>::Event\<close>
  (\<^verbatim>\<open>HTTPTransactionEgressSM.h\<close>, not among the sources), as section 4.1 lists
  them. The header names the states \<^verbatim>\<open>Start\<close>, \<^verbatim>\<open>EOMQueued\<close> and
  \<^verbatim>\<open>SendingDone\<close> and the events \<^verbatim>\<open>sendHeaders\<close>, \<^verbatim>\<open>sendChunkHeader\<close>,
  \<^verbatim>\<open>sendChunkTerminator\<close> and \<^verbatim>\<open>sendTrailers\<close>. The constructors carry the
  prefix \<open>Egress_\<close>: three of the names are also names of the ingress machine.
\<close>

datatype EgressState =
    Egress_Start | Egress_HeadersSent | Egress_ChunkHeaderSent | Egress_ChunkBodySent
  | Egress_ChunkTerminatorSent | Egress_TrailersSent | Egress_RegularBodySent
  | Egress_EOMQueued | Egress_SendingDone

datatype EgressEvent =
    Egress_sendHeaders | Egress_sendBody | Egress_sendChunkHeader
  | Egress_sendChunkTerminator | Egress_sendTrailers | Egress_sendEOM
  | Egress_eomFlushed

subsection \<open>The transaction\<close>

text \<open>
  Modelled from the spec: \<^verbatim>\<open>HTTPCodec::StreamID\<close> (declared outside the sources), an
  opaque stream identifier with a numeric form. It is an unsigned integer here, of
  64 bits; the width plays no role below.
\<close>

type_synonym StreamID = "64 word"

text \<open>
  Modelled from the spec: \<^verbatim>\<open>HTTPCodec::ExAttributes\<close> (declared outside the
  sources), which "records control-stream id and unidirectional flag"; these are the
  two members the header reads.
\<close>

record ExAttributes =
  controlStream :: StreamID
  unidirectional :: bool

text \<open>\<^verbatim>\<open>HTTPTransaction::Chunk\<close>, built by \<^verbatim>\<open>Chunk(length)\<close> with \<^verbatim>\<open>headerSent(false)\<close>.\<close>

record Chunk =
  chunkLength :: nat
  headerSent :: bool

definition mkChunk :: "nat \<Rightarrow> Chunk" where
  "mkChunk inLength = \<lparr>chunkLength = inLength, headerSent = False\<rparr>"

text \<open>A block of headers (trailers), as the list of its name and value pairs.\<close>

type_synonym HTTPHeaders = "(string \<times> string) list"

text \<open>
  The member variables of \<^verbatim>\<open>HTTPTransaction\<close> that the functions below read or
  write, with the widths the header declares: \<^verbatim>\<open>uint16_t lastResponseStatus_\<close>,
  \<^verbatim>\<open>uint8_t pendingByteEvents_\<close>, \<^verbatim>\<open>uint64_t\<close> depths and \<^verbatim>\<open>egressCalls_\<close>.
  \<^verbatim>\<open>double cumulativeRatio_\<close> is a real number here: nothing below depends on
  rounding. The deferred ingress queue is a \<^verbatim>\<open>unique_ptr\<close> to a queue: absent, or
  the list of queued events, oldest first. Of the deferred egress body
  (\<^verbatim>\<open>deferredEgressBody_\<close>) only the length is kept, and of the send window
  (\<^verbatim>\<open>sendWindow_\<close>) only its size.
\<close>

record HTTPTransaction =
  direction :: TransportDirection
  id' :: StreamID
  egressState :: EgressState
  ingressState :: IngressState
  lastResponseStatus :: "16 word"
  pendingByteEvents :: "8 word"
  partiallyReliable :: bool
  chunkHeaders :: "Chunk list"
  trailers :: "HTTPHeaders option"
  assocStreamId :: "StreamID option"
  exAttributes :: "ExAttributes option"
  pushedTransactions :: "StreamID set"
  exTransactions :: "StreamID set"
  insertDepth :: "64 word"
  currentDepth :: "64 word"
  cumulativeRatio :: real
  egressCalls :: "64 word"
  deferredIngress :: "IngressEvent list option"
  deferredEgressBodyLength :: nat
  sendWindowSize :: int
  ingressPaused :: bool
  egressPaused :: bool
  handlerEgressPaused :: bool
  useFlowControl :: bool
  aborted :: bool

text \<open>A failed \<^verbatim>\<open>CHECK\<close> ends the process; the value says which one failed.\<close>

datatype check_failure =
    CHECK_transit EgressEvent
  | CHECK_not_partiallyReliable
  | CHECK_LT_pendingByteEvents
  | CHECK_GT_pendingByteEvents

text \<open>
  Modelled from the spec: the kind of an error reported to the handler (the
  exception class is declared outside the sources), one of the kinds of section 7.
\<close>

datatype ErrorKind =
    ProtocolError | TransportError | Timeout | PeerAbort | ResourceError
  | UnsupportedOperation

text \<open>
  What a member function does to the outside, in the order it does it: a callback of
  the handler (\<^verbatim>\<open>HTTPTransactionHandler\<close>, prefix \<open>Handler_\<close>) or a call of the
  transport (prefix \<open>Transport_\<close>). \<^verbatim>\<open>onError\<close> carries the direction and the
  kind of the error.
\<close>

datatype HandlerCallback =
    Handler_onHeadersComplete | Handler_onBody | Handler_onChunkHeader
  | Handler_onChunkComplete | Handler_onTrailers | Handler_onUpgrade | Handler_onEOM
  | Handler_onError Direction ErrorKind
  | Handler_onEgressPaused | Handler_onEgressResumed

datatype TransportCall =
    Transport_pauseIngress | Transport_resumeIngress | Transport_sendAbort ErrorCode

datatype Call = ToHandler HandlerCallback | ToTransport TransportCall

text \<open>
  Modelled from the spec: the constructor (\<^verbatim>\<open>HTTPTransaction.cpp\<close>, not among the
  sources), for the bit-field flags, which it sets: a new transaction has them
  cleared. The rest is the member initialisers of the header: both machines in their
  initial state (\<^verbatim>\<open>getInitialState()\<close> is \<^verbatim>\<open>State::Start\<close>), the counters at
  zero, trailers and deferred queue absent.
\<close>

definition newTransaction :: "TransportDirection \<Rightarrow> StreamID \<Rightarrow> HTTPTransaction" where
  "newTransaction dir sid =
     \<lparr>direction = dir, id' = sid, egressState = Egress_Start, ingressState = Start,
      lastResponseStatus = 0, pendingByteEvents = 0, partiallyReliable = False,
      chunkHeaders = [], trailers = None, assocStreamId = None, exAttributes = None,
      pushedTransactions = {}, exTransactions = {}, insertDepth = 0, currentDepth = 0,
      cumulativeRatio = 0, egressCalls = 0, deferredIngress = None,
      deferredEgressBodyLength = 0, sendWindowSize = 0, ingressPaused = False,
      egressPaused = False, handlerEgressPaused = False, useFlowControl = False,
      aborted = False\<rparr>"

subsection \<open>The transport and the state-machine template\<close>

text \<open>
  \<^verbatim>\<open>HTTPTransaction::Transport\<close> is an abstract interface that the session implements.
  The functions below use three of its answers: two capabilities of its codec, and
  \<^verbatim>\<open>newPushedTransaction(assocStreamId, handler)\<close>, which returns the new transaction or
  null. A handler is a pointer; only its identity is modelled.
\<close>

type_synonym PushHandler = nat

record Transport =
  codec_supportsParallelRequests :: bool
  codec_supportsPushTransactions :: bool
  transport_newPushedTransaction :: "StreamID \<Rightarrow> PushHandler \<Rightarrow> HTTPTransaction option"

text \<open>
  Modelled from the spec: the template \<^verbatim>\<open>StateMachine<T>\<close>
  (\<^verbatim>\<open>proxygen/lib/utils/StateMachine.h\<close>, not among the sources), whose \<^verbatim>\<open>transit\<close>
  and \<^verbatim>\<open>canTransit\<close> the header calls. The machine is a table
  \<open>(state, event) \<rightarrow> (next_state, accepted)\<close>, read by \<^verbatim>\<open>T::find(s, e)\<close> (declared in
  the header as \<^verbatim>\<open>static std::pair<State, bool> find(State s, Event e)\<close>); an
  unlisted pair is rejected and a rejected event does not change the state.
  \<open>transit\<close> returns the state after the call and whether the event was accepted.
  The table itself (\<^verbatim>\<open>find\<close>, here \<open>find'\<close>) is a parameter.
\<close>

definition transit :: "('s \<Rightarrow> 'e \<Rightarrow> 's \<times> bool) \<Rightarrow> 's \<Rightarrow> 'e \<Rightarrow> 's \<times> bool" where
  "transit find' s e = (case find' s e of (s', ok) \<Rightarrow> if ok then (s', True) else (s, False))"

definition canTransit :: "('s \<Rightarrow> 'e \<Rightarrow> 's \<times> bool) \<Rightarrow> 's \<Rightarrow> 'e \<Rightarrow> bool" where
  "canTransit find' s e = snd (find' s e)"

type_synonym EgressSM = "EgressState \<Rightarrow> EgressEvent \<Rightarrow> EgressState \<times> bool"

type_synonym IngressSM = "IngressState \<Rightarrow> IngressEvent \<Rightarrow> IngressState \<times> bool"

text \<open>
  Modelled from the spec: \<^verbatim>\<open>find\<close> (\<^verbatim>\<open>HTTPTransactionIngressSM.cpp\<close>, not among
  the sources) on a table given by the list of its entries: a listed pair yields its
  next state and \<open>True\<close>, an unlisted pair is rejected.
\<close>

definition tableFind :: "(('s \<times> 'e) \<times> 's) list \<Rightarrow> 's \<Rightarrow> 'e \<Rightarrow> 's \<times> bool" where
  "tableFind tbl s e = (case map_of tbl (s, e) of None \<Rightarrow> (s, False) | Some s' \<Rightarrow> (s', True))"

text \<open>
  Modelled from the spec: the ingress table (\<^verbatim>\<open>HTTPTransactionIngressSM.cpp\<close>, not
  among the sources), from the transitions section 4.1 lists: \<open>onHeaders\<close> only from
  \<open>Start\<close>; the five events out of \<open>HeadersReceived\<close>; the chunk sequence; \<open>onEOM\<close>
  from every state after the headers that is neither \<open>EOMQueued\<close> nor \<open>ReceivingDone\<close>;
  \<open>eomFlushed\<close> from \<open>EOMQueued\<close>. It serves as the concrete table of the examples;
  the theorems hold for every table.
\<close>

definition ingressTransitions :: "((IngressState \<times> IngressEvent) \<times> IngressState) list" where
  "ingressTransitions =
     [((Start, onHeaders), HeadersReceived),
      ((HeadersReceived, onBody), RegularBodyReceived),
      ((HeadersReceived, onChunkHeader), ChunkHeaderReceived),
      ((HeadersReceived, onTrailers), TrailersReceived),
      ((HeadersReceived, onUpgrade), UpgradeComplete),
      ((HeadersReceived, onEOM), EOMQueued),
      ((ChunkHeaderReceived, onBody), ChunkBodyReceived),
      ((ChunkBodyReceived, onChunkComplete), ChunkCompleted),
      ((ChunkCompleted, onChunkHeader), ChunkHeaderReceived),
      ((ChunkCompleted, onTrailers), TrailersReceived),
      ((ChunkCompleted, onEOM), EOMQueued),
      ((RegularBodyReceived, onEOM), EOMQueued),
      ((ChunkHeaderReceived, onEOM), EOMQueued),
      ((ChunkBodyReceived, onEOM), EOMQueued),
      ((TrailersReceived, onEOM), EOMQueued),
      ((UpgradeComplete, onEOM), EOMQueued),
      ((EOMQueued, eomFlushed), ReceivingDone)]"

definition ingressFind :: IngressSM where
  "ingressFind = tableFind ingressTransitions"

text \<open>
  Modelled from the spec: the egress table (\<^verbatim>\<open>HTTPTransactionEgressSM\<close>, not among
  the sources), from section 4.1: headers once; the chunk group \<open>sendChunkHeader\<close>,
  \<open>sendBody\<close>, \<open>sendChunkTerminator\<close>, repeatable; one \<open>sendTrailers\<close>; \<open>sendEOM\<close>;
  \<open>eomFlushed\<close>. It serves as the concrete table of the examples; the theorems hold
  for every table.
\<close>

definition egressTransitions :: "((EgressState \<times> EgressEvent) \<times> EgressState) list" where
  "egressTransitions =
     [((Egress_Start, Egress_sendHeaders), Egress_HeadersSent),
      ((Egress_HeadersSent, Egress_sendBody), Egress_RegularBodySent),
      ((Egress_HeadersSent, Egress_sendChunkHeader), Egress_ChunkHeaderSent),
      ((Egress_HeadersSent, Egress_sendEOM), Egress_EOMQueued),
      ((Egress_RegularBodySent, Egress_sendBody), Egress_RegularBodySent),
      ((Egress_RegularBodySent, Egress_sendTrailers), Egress_TrailersSent),
      ((Egress_RegularBodySent, Egress_sendEOM), Egress_EOMQueued),
      ((Egress_ChunkHeaderSent, Egress_sendBody), Egress_ChunkBodySent),
      ((Egress_ChunkBodySent, Egress_sendChunkTerminator), Egress_ChunkTerminatorSent),
      ((Egress_ChunkTerminatorSent, Egress_sendChunkHeader), Egress_ChunkHeaderSent),
      ((Egress_ChunkTerminatorSent, Egress_sendTrailers), Egress_TrailersSent),
      ((Egress_ChunkTerminatorSent, Egress_sendEOM), Egress_EOMQueued),
      ((Egress_TrailersSent, Egress_sendEOM), Egress_EOMQueued),
      ((Egress_EOMQueued, Egress_eomFlushed), Egress_SendingDone)]"

definition egressFind :: EgressSM where
  "egressFind = tableFind egressTransitions"



section \<open>Member functions of the header\<close>


definition isDownstream :: "HTTPTransaction \<Rightarrow> bool" where
  "isDownstream t \<longleftrightarrow> direction t = DOWNSTREAM"

text \<open>
  \<^verbatim>\<open>std::make_tuple(insertDepth_, currentDepth_,
     egressCalls_ > 0 ? cumulativeRatio_ / egressCalls_ : 0)\<close>.
  The division is written as a partial operation, so that a division by zero would
  show as \<open>None\<close>; \<^verbatim>\<open>egressCalls_\<close> is converted to \<^verbatim>\<open>double\<close> for it.
\<close>

definition double_div :: "real \<Rightarrow> real \<Rightarrow> real option" where
  "double_div x y = (if y = 0 then None else Some (x / y))"

definition getPrioritySummary :: "HTTPTransaction \<Rightarrow> (64 word \<times> 64 word \<times> real) option" where
  "getPrioritySummary t =
     (if egressCalls t > 0
      then map_option (\<lambda>r. (insertDepth t, currentDepth t, r))
             (double_div (cumulativeRatio t) (real (unat (egressCalls t))))
      else Some (insertDepth t, currentDepth t, 0))"


definition isEgressEOMQueued :: "HTTPTransaction \<Rightarrow> bool" where
  "isEgressEOMQueued t \<longleftrightarrow> egressState t = Egress_EOMQueued"

definition isEgressComplete :: "HTTPTransaction \<Rightarrow> bool" where
  "isEgressComplete t \<longleftrightarrow> egressState t = Egress_SendingDone"

definition isRemoteInitiated :: "HTTPTransaction \<Rightarrow> bool" where
  "isRemoteInitiated t \<longleftrightarrow>
     (direction t = DOWNSTREAM \<and> id' t mod 2 = 1) \<or>
     (direction t = UPSTREAM \<and> id' t mod 2 = 0)"

definition isEgressEOMSeen :: "HTTPTransaction \<Rightarrow> bool" where
  "isEgressEOMSeen t \<longleftrightarrow> isEgressEOMQueued t \<or> isEgressComplete t"


text \<open>
  The three senders below start with \<^verbatim>\<open>CHECK(HTTPTransactionEgressSM::transit(...))\<close>
  and then \<^verbatim>\<open>CHECK(!partiallyReliable_)\<close>, in this order; each \<^verbatim>\<open>CHECK\<close> that
  fails ends the call with its failure.
\<close>

definition sendChunkHeader ::
  "EgressSM \<Rightarrow> Transport \<Rightarrow> HTTPTransaction \<Rightarrow> nat \<Rightarrow> check_failure + HTTPTransaction" where
  "sendChunkHeader efind tr t len =
     (case transit efind (egressState t) Egress_sendChunkHeader of
        (s', ok) \<Rightarrow>
          if \<not> ok then Inl (CHECK_transit Egress_sendChunkHeader)
          else if partiallyReliable t then Inl CHECK_not_partiallyReliable
          else if \<not> codec_supportsParallelRequests tr
          then Inr (t\<lparr>egressState := s', chunkHeaders := chunkHeaders t @ [mkChunk len]\<rparr>)
          else Inr (t\<lparr>egressState := s'\<rparr>))"

definition sendChunkTerminator :: "EgressSM \<Rightarrow> HTTPTransaction \<Rightarrow> check_failure + HTTPTransaction" where
  "sendChunkTerminator efind t =
     (case transit efind (egressState t) Egress_sendChunkTerminator of
        (s', ok) \<Rightarrow>
          if \<not> ok then Inl (CHECK_transit Egress_sendChunkTerminator)
          else if partiallyReliable t then Inl CHECK_not_partiallyReliable
          else Inr (t\<lparr>egressState := s'\<rparr>))"

definition sendTrailers ::
  "EgressSM \<Rightarrow> HTTPTransaction \<Rightarrow> HTTPHeaders \<Rightarrow> check_failure + HTTPTransaction" where
  "sendTrailers efind t trls =
     (case transit efind (egressState t) Egress_sendTrailers of
        (s', ok) \<Rightarrow>
          if \<not> ok then Inl (CHECK_transit Egress_sendTrailers)
          else if partiallyReliable t then Inl CHECK_not_partiallyReliable
          else Inr (t\<lparr>egressState := s', trailers := Some trls\<rparr>))"

definition supportsPushTransactions :: "Transport \<Rightarrow> HTTPTransaction \<Rightarrow> bool" where
  "supportsPushTransactions tr t \<longleftrightarrow>
     direction t = DOWNSTREAM \<and> codec_supportsPushTransactions tr"

text \<open>
  \<^verbatim>\<open>newPushedTransaction(handler)\<close> returns the transaction pointer (or null) and may
  insert into \<^verbatim>\<open>pushedTransactions_\<close>: the result is the transaction after the call
  and the pointer.
\<close>

definition newPushedTransaction ::
  "Transport \<Rightarrow> HTTPTransaction \<Rightarrow> PushHandler
     \<Rightarrow> check_failure + (HTTPTransaction \<times> HTTPTransaction option)" where
  "newPushedTransaction tr t handler =
     (if partiallyReliable t then Inl CHECK_not_partiallyReliable
      else if isEgressEOMSeen t then Inr (t, None)
      else (case transport_newPushedTransaction tr (id' t) handler of
              None \<Rightarrow> Inr (t, None)
            | Some txn \<Rightarrow>
                Inr (t\<lparr>pushedTransactions := insert (id' txn) (pushedTransactions t)\<rparr>,
                     Some txn)))"

definition isExTransaction :: "HTTPTransaction \<Rightarrow> bool" where
  "isExTransaction t \<longleftrightarrow> exAttributes t \<noteq> None"

definition isUnidirectional :: "HTTPTransaction \<Rightarrow> bool" where
  "isUnidirectional t \<longleftrightarrow>
     isExTransaction t \<and> (case exAttributes t of None \<Rightarrow> False | Some a \<Rightarrow> unidirectional a)"

definition shouldNotifyExTxnError :: "HTTPTransaction \<Rightarrow> Direction \<Rightarrow> bool" where
  "shouldNotifyExTxnError t errorDirection =
     (if isUnidirectional t
      then (if isRemoteInitiated t then errorDirection = EGRESS
            else errorDirection = INGRESS)
      else False)"

definition incrementPendingByteEvents :: "HTTPTransaction \<Rightarrow> check_failure + HTTPTransaction" where
  "incrementPendingByteEvents t =
     (if pendingByteEvents t < 255
      then Inr (t\<lparr>pendingByteEvents := pendingByteEvents t + 1\<rparr>)
      else Inl CHECK_LT_pendingByteEvents)"

definition decrementPendingByteEvents :: "HTTPTransaction \<Rightarrow> check_failure + HTTPTransaction" where
  "decrementPendingByteEvents t =
     (if pendingByteEvents t > 0
      then Inr (t\<lparr>pendingByteEvents := pendingByteEvents t - 1\<rparr>)
      else Inl CHECK_GT_pendingByteEvents)"

section \<open>Member functions defined outside the header\<close>

text \<open>
  The header declares the functions of this section; their bodies are in
  \<^verbatim>\<open>HTTPTransaction.cpp\<close>, which is not among the sources. Each is modelled from
  the spec and from the comment on its declaration. A function returns the
  transaction after the call and the calls it made to the handler and the transport,
  in order.
\<close>

subsection \<open>Sending headers\<close>





subsection \<open>Validating an ingress event\<close>

text \<open>
  Modelled from the spec: \<^verbatim>\<open>validateIngressStateTransition(event)\<close>
  (\<^verbatim>\<open>HTTPTransaction.cpp\<close>). The comment on its declaration: "Validates the
  ingress state transition. Returns false and sends an abort with PROTOCOL_ERROR if
  the transition fails. Otherwise it returns true." The spec, on a rejected
  transition: the transaction goes to the aborted sub-state, emits a protocol-level
  error to the handler, tagged with the direction of the event's side, and sends an
  abort; both machines stay in their current state.
\<close>

definition validateIngressStateTransition ::
  "IngressSM \<Rightarrow> HTTPTransaction \<Rightarrow> IngressEvent \<Rightarrow> bool \<times> HTTPTransaction \<times> Call list" where
  "validateIngressStateTransition ifind t event =
     (case transit ifind (ingressState t) event of
        (s', ok) \<Rightarrow>
          if ok then (True, t\<lparr>ingressState := s'\<rparr>, [])
          else (False, t\<lparr>aborted := True\<rparr>,
                [ToHandler (Handler_onError INGRESS ProtocolError),
                 ToTransport (Transport_sendAbort PROTOCOL_ERROR)]))"

text \<open>
  Modelled from the spec: a sequence of ingress events validated one after the
  other. After a rejected event no further event is accepted.
\<close>

fun ingressEvents ::
  "IngressSM \<Rightarrow> HTTPTransaction \<Rightarrow> IngressEvent list \<Rightarrow> HTTPTransaction \<times> Call list" where
  "ingressEvents ifind t [] = (t, [])"
| "ingressEvents ifind t (e # es) =
     (case validateIngressStateTransition ifind t e of
        (ok, t', cs) \<Rightarrow>
          if ok then (case ingressEvents ifind t' es of (t'', cs') \<Rightarrow> (t'', cs @ cs'))
          else (t', cs))"

subsection \<open>Pausing and resuming the handler's egress\<close>

text \<open>
  Modelled from the spec: \<^verbatim>\<open>updateHandlerPauseState()\<close> (\<^verbatim>\<open>HTTPTransaction.cpp\<close>);
  the comment on its declaration: "Invokes the handler's onEgressPaused/Resumed if
  the handler's pause state needs updating". The spec: egress pause is induced by
  the transport signalling back-pressure, by the deferred egress reaching the egress
  buffer limit, or by an empty send window (the send window counts only under flow
  control); the transaction computes from these whether the handler should be
  paused, and on a change calls \<^verbatim>\<open>onEgressPaused()\<close> or \<^verbatim>\<open>onEgressResumed()\<close>.
  The limit is the static member \<^verbatim>\<open>egressBufferLimit_\<close>, a parameter here.
\<close>

definition updateHandlerPauseState :: "nat \<Rightarrow> HTTPTransaction \<Rightarrow> HTTPTransaction \<times> Call list" where
  "updateHandlerPauseState egressBufferLimit t =
     (let handlerShouldBePaused =
            egressPaused t \<or>
            deferredEgressBodyLength t \<ge> egressBufferLimit \<or>
            (useFlowControl t \<and> sendWindowSize t \<le> 0)
      in if handlerShouldBePaused \<noteq> handlerEgressPaused t
         then (t\<lparr>handlerEgressPaused := handlerShouldBePaused\<rparr>,
               [ToHandler (if handlerShouldBePaused then Handler_onEgressPaused
                           else Handler_onEgressResumed)])
         else (t, []))"

text \<open>
  Modelled from the spec: whatever happens on the egress side (the transport pauses
  or resumes, body is buffered or flushed, the window is updated) changes the three
  inputs of the pause state, here to arbitrary new values: the transport's pause, the
  length of the deferred egress and the send window. The pause state is updated
  after each change.
\<close>

type_synonym EgressCondition = "bool \<times> nat \<times> int"

definition egressConditionChanged ::
  "nat \<Rightarrow> HTTPTransaction \<Rightarrow> EgressCondition \<Rightarrow> HTTPTransaction \<times> Call list" where
  "egressConditionChanged egressBufferLimit t c =
     (case c of (paused, buffered, window) \<Rightarrow>
        updateHandlerPauseState egressBufferLimit
          (t\<lparr>egressPaused := paused, deferredEgressBodyLength := buffered,
              sendWindowSize := window\<rparr>))"

fun egressConditionsChanged ::
  "nat \<Rightarrow> HTTPTransaction \<Rightarrow> EgressCondition list \<Rightarrow> HTTPTransaction \<times> Call list" where
  "egressConditionsChanged egressBufferLimit t [] = (t, [])"
| "egressConditionsChanged egressBufferLimit t (c # cs) =
     (case egressConditionChanged egressBufferLimit t c of
        (t', calls) \<Rightarrow>
          (case egressConditionsChanged egressBufferLimit t' cs of
             (t'', calls') \<Rightarrow> (t'', calls @ calls')))"

text \<open>
  A list of calls alternates when it consists of \<^verbatim>\<open>onEgressPaused\<close> and
  \<^verbatim>\<open>onEgressResumed\<close> callbacks in strict alternation; the flag says whether the
  handler is paused before the first of them, so with \<open>False\<close> the list begins with
  \<^verbatim>\<open>onEgressPaused\<close>.
\<close>

fun alternates :: "bool \<Rightarrow> Call list \<Rightarrow> bool" where
  "alternates paused [] = True"
| "alternates paused (c # cs) =
     (c = ToHandler (if paused then Handler_onEgressResumed else Handler_onEgressPaused) \<and>
      alternates (\<not> paused) cs)"

subsection \<open>Pausing and resuming ingress\<close>

text \<open>
  Modelled from the spec: the handler callback that matches an ingress event; the
  internal event and the sentinel have none.
\<close>

fun matchingCallback :: "IngressEvent \<Rightarrow> HandlerCallback option" where
  "matchingCallback onHeaders = Some Handler_onHeadersComplete"
| "matchingCallback onBody = Some Handler_onBody"
| "matchingCallback onChunkHeader = Some Handler_onChunkHeader"
| "matchingCallback onChunkComplete = Some Handler_onChunkComplete"
| "matchingCallback onTrailers = Some Handler_onTrailers"
| "matchingCallback onUpgrade = Some Handler_onUpgrade"
| "matchingCallback onEOM = Some Handler_onEOM"
| "matchingCallback eomFlushed = None"
| "matchingCallback NumEvents = None"

text \<open>
  Modelled from the spec: \<^verbatim>\<open>mustQueueIngress()\<close> (\<^verbatim>\<open>HTTPTransaction.cpp\<close>): an
  event is queued "if ingress_paused or if a predecessor event is still queued".
\<close>

definition mustQueueIngress :: "HTTPTransaction \<Rightarrow> bool" where
  "mustQueueIngress t \<longleftrightarrow>
     ingressPaused t \<or> (case deferredIngress t of None \<Rightarrow> False | Some q \<Rightarrow> q \<noteq> [])"

text \<open>
  Modelled from the spec: the \<^verbatim>\<open>processIngress...\<close> functions
  (\<^verbatim>\<open>HTTPTransaction.cpp\<close>), which deliver an event to the handler, immediate or
  deferred. The handler's matching callback is invoked; after \<^verbatim>\<open>onEOM\<close> has reached
  the handler the ingress machine moves on by \<open>eomFlushed\<close>.
\<close>

definition processIngress ::
  "IngressSM \<Rightarrow> HTTPTransaction \<Rightarrow> IngressEvent \<Rightarrow> HTTPTransaction \<times> Call list" where
  "processIngress ifind t e =
     (case matchingCallback e of
        None \<Rightarrow> (t, [])
      | Some cb \<Rightarrow>
          (if e = onEOM
           then t\<lparr>ingressState := fst (transit ifind (ingressState t) eomFlushed)\<rparr>
           else t,
           [ToHandler cb]))"

text \<open>
  Modelled from the spec: the ingress path of the \<^verbatim>\<open>onIngress...\<close> functions
  (\<^verbatim>\<open>HTTPTransaction.cpp\<close>): the transition is validated; then the event is queued
  if it must be, and delivered to the handler otherwise. The queue is created on
  the first event it holds.
\<close>

definition onIngress ::
  "IngressSM \<Rightarrow> HTTPTransaction \<Rightarrow> IngressEvent \<Rightarrow> HTTPTransaction \<times> Call list" where
  "onIngress ifind t e =
     (case validateIngressStateTransition ifind t e of
        (ok, t1, cs) \<Rightarrow>
          if \<not> ok then (t1, cs)
          else if mustQueueIngress t1
          then (t1\<lparr>deferredIngress :=
                     Some ((case deferredIngress t1 of None \<Rightarrow> [] | Some q \<Rightarrow> q) @ [e])\<rparr>,
                cs)
          else (case processIngress ifind t1 e of (t2, cs2) \<Rightarrow> (t2, cs @ cs2)))"

text \<open>
  Modelled from the spec: \<^verbatim>\<open>pauseIngress()\<close> (\<^verbatim>\<open>HTTPTransaction.cpp\<close>): "it sets
  ingress_paused, calls transport pause_ingress(self), and begins queueing incoming
  events".
\<close>

definition pauseIngress :: "HTTPTransaction \<Rightarrow> HTTPTransaction \<times> Call list" where
  "pauseIngress t = (t\<lparr>ingressPaused := True\<rparr>, [ToTransport Transport_pauseIngress])"

text \<open>
  Modelled from the spec: \<^verbatim>\<open>resumeIngress()\<close> (\<^verbatim>\<open>HTTPTransaction.cpp\<close>): ingress is
  no longer paused, the transport is told, and the deferred events are drained to the
  handler in FIFO order. (The header, on \<^verbatim>\<open>pauseIngress()\<close>: the transaction "will
  queue the ingress events and data and delay delivery to the Handler until the
  transaction is unpaused".) A handler that pauses again in the middle of the drain
  is not modelled.
\<close>

fun drainDeferredIngress ::
  "IngressSM \<Rightarrow> HTTPTransaction \<Rightarrow> IngressEvent list \<Rightarrow> HTTPTransaction \<times> Call list" where
  "drainDeferredIngress ifind t [] = (t, [])"
| "drainDeferredIngress ifind t (e # q) =
     (case processIngress ifind t e of
        (t1, cs1) \<Rightarrow>
          (case drainDeferredIngress ifind t1 q of (t2, cs2) \<Rightarrow> (t2, cs1 @ cs2)))"

definition resumeIngress :: "IngressSM \<Rightarrow> HTTPTransaction \<Rightarrow> HTTPTransaction \<times> Call list" where
  "resumeIngress ifind t =
     (case deferredIngress t of
        None \<Rightarrow> (t\<lparr>ingressPaused := False\<rparr>, [ToTransport Transport_resumeIngress])
      | Some q \<Rightarrow>
          (case drainDeferredIngress ifind (t\<lparr>ingressPaused := False\<rparr>) q of
             (t1, cs) \<Rightarrow>
               (t1\<lparr>deferredIngress := Some []\<rparr>, ToTransport Transport_resumeIngress # cs)))"

text \<open>\<^verbatim>\<open>pauseIngress(); resumeIngress();\<close> with nothing in between.\<close>

definition pauseThenResumeIngress ::
  "IngressSM \<Rightarrow> HTTPTransaction \<Rightarrow> HTTPTransaction \<times> Call list" where
  "pauseThenResumeIngress ifind t =
     (case pauseIngress t of
        (t1, cs1) \<Rightarrow> (case resumeIngress ifind t1 of (t2, cs2) \<Rightarrow> (t2, cs1 @ cs2)))"

text \<open>What the handler observes of a list of calls.\<close>

fun handlerCalls :: "Call list \<Rightarrow> HandlerCallback list" where
  "handlerCalls [] = []"
| "handlerCalls (ToHandler cb # cs) = cb # handlerCalls cs"
| "handlerCalls (ToTransport c # cs) = handlerCalls cs"

text \<open>No event is held in the deferred queue: there is no queue, or it is empty.\<close>

definition noDeferredIngress :: "HTTPTransaction \<Rightarrow> bool" where
  "noDeferredIngress t \<longleftrightarrow> (case deferredIngress t of None \<Rightarrow> True | Some q \<Rightarrow> q = [])"

section \<open>Drivers and example transactions\<close>

text \<open>
  A sequence of calls of \<^verbatim>\<open>incrementPendingByteEvents()\<close> and
  \<^verbatim>\<open>decrementPendingByteEvents()\<close> on one transaction; the first failed
  \<^verbatim>\<open>CHECK\<close> ends it.
\<close>

datatype ByteEventCall = Increment | Decrement

fun pendingByteEventCalls ::
  "HTTPTransaction \<Rightarrow> ByteEventCall list \<Rightarrow> check_failure + HTTPTransaction" where
  "pendingByteEventCalls t [] = Inr t"
| "pendingByteEventCalls t (c # cs) =
     (case (case c of Increment \<Rightarrow> incrementPendingByteEvents t
                    | Decrement \<Rightarrow> decrementPendingByteEvents t) of
        Inl e \<Rightarrow> Inl e
      | Inr t' \<Rightarrow> pendingByteEventCalls t' cs)"

text \<open>An extended transaction bound to control stream 1, as the constructor gets it
  through its \<^verbatim>\<open>exAttributes\<close> argument.\<close>

definition exTransaction :: "TransportDirection \<Rightarrow> StreamID \<Rightarrow> bool \<Rightarrow> HTTPTransaction" where
  "exTransaction dir sid uni =
     (newTransaction dir sid)\<lparr>exAttributes := Some \<lparr>controlStream = 1, unidirectional = uni\<rparr>\<rparr>"

text \<open>
  A transport whose codec multiplexes and that answers every
  \<^verbatim>\<open>newPushedTransaction(assocStreamId, handler)\<close> with a new transaction of the given
  id, built with the \<^verbatim>\<open>assocStreamId\<close> it was handed.
\<close>

definition pushTransport :: "StreamID \<Rightarrow> Transport" where
  "pushTransport sid =
     \<lparr>codec_supportsParallelRequests = True,
      codec_supportsPushTransactions = True,
      transport_newPushedTransaction =
        (\<lambda>assoc h. Some ((newTransaction DOWNSTREAM sid)\<lparr>assocStreamId := Some assoc\<rparr>))\<rparr>"

text \<open>
  What happens on the ingress side of a transaction: the transport delivers an ingress
  event, or the handler calls \<^verbatim>\<open>pauseIngress()\<close> or \<^verbatim>\<open>resumeIngress()\<close>. A
  sequence of such calls, from a new transaction, gives the transactions that can be
  met; the result is the transaction after the calls and the calls made to the handler
  and the transport, in order.
\<close>

datatype IngressCall = Call_onIngress IngressEvent | Call_pauseIngress | Call_resumeIngress

fun ingressCall ::
  "IngressSM \<Rightarrow> HTTPTransaction \<Rightarrow> IngressCall \<Rightarrow> HTTPTransaction \<times> Call list" where
  "ingressCall ifind t (Call_onIngress e) = onIngress ifind t e"
| "ingressCall ifind t Call_pauseIngress = pauseIngress t"
| "ingressCall ifind t Call_resumeIngress = resumeIngress ifind t"

fun ingressCalls ::
  "IngressSM \<Rightarrow> HTTPTransaction \<Rightarrow> IngressCall list \<Rightarrow> HTTPTransaction \<times> Call list" where
  "ingressCalls ifind t [] = (t, [])"
| "ingressCalls ifind t (c # cs) =
     (case ingressCall ifind t c of
        (t1, cs1) \<Rightarrow>
          (case ingressCalls ifind t1 cs of (t2, cs2) \<Rightarrow> (t2, cs1 @ cs2)))"

section \<open>Theorems\<close>

subsection \<open>Initiation is the parity of the stream id\<close>

lemma word_mod_2_eq_1_iff: "(w :: 'a::len word) mod 2 = 1 \<longleftrightarrow> odd (unat w)"
  by (metis even_of_nat odd_iff_mod_2_eq_one of_nat_unat ucast_id)

lemma word_mod_2_eq_0_iff: "(w :: 'a::len word) mod 2 = 0 \<longleftrightarrow> even (unat w)"
  by (metis even_of_nat mod_0_imp_dvd of_nat_unat parity_cases ucast_id)

text \<open>
  C6. \<^verbatim>\<open>isRemoteInitiated()\<close> is true exactly when the transaction is downstream
  and its stream id is odd, or upstream and its stream id is even.
\<close>

theorem isRemoteInitiated_parity:
  "isRemoteInitiated t \<longleftrightarrow>
     (direction t = DOWNSTREAM \<and> odd (unat (id' t))) \<or>
     (direction t = UPSTREAM \<and> even (unat (id' t)))"
  by (simp add: isRemoteInitiated_def word_mod_2_eq_1_iff word_mod_2_eq_0_iff)

subsection \<open>Errors of extended transactions, by direction\<close>

text \<open>
  C5. For a unidirectional extended transaction \<^verbatim>\<open>shouldNotifyExTxnError(d)\<close> is
  true exactly when \<open>d\<close> is \<open>EGRESS\<close> if the transaction is remotely initiated, and
  exactly when \<open>d\<close> is \<open>INGRESS\<close> if it is locally initiated; for a transaction that
  is not unidirectional it is false for every direction.
\<close>

theorem shouldNotifyExTxnError_direction:
  "(isUnidirectional t \<and> isRemoteInitiated t \<longrightarrow>
      (shouldNotifyExTxnError t d \<longleftrightarrow> d = EGRESS)) \<and>
   (isUnidirectional t \<and> \<not> isRemoteInitiated t \<longrightarrow>
      (shouldNotifyExTxnError t d \<longleftrightarrow> d = INGRESS)) \<and>
   (\<not> isUnidirectional t \<longrightarrow> \<not> shouldNotifyExTxnError t d)"
  by (simp add: shouldNotifyExTxnError_def)

theorem shouldNotifyExTxnError_direction_witness:
  "isUnidirectional (exTransaction DOWNSTREAM 3 True) \<and>
   isRemoteInitiated (exTransaction DOWNSTREAM 3 True) \<and>
   shouldNotifyExTxnError (exTransaction DOWNSTREAM 3 True) EGRESS \<and>
   \<not> shouldNotifyExTxnError (exTransaction DOWNSTREAM 3 True) INGRESS \<and>
   \<not> shouldNotifyExTxnError (exTransaction DOWNSTREAM 3 True) INGRESS_AND_EGRESS \<and>
   isUnidirectional (exTransaction DOWNSTREAM 4 True) \<and>
   \<not> isRemoteInitiated (exTransaction DOWNSTREAM 4 True) \<and>
   shouldNotifyExTxnError (exTransaction DOWNSTREAM 4 True) INGRESS \<and>
   \<not> shouldNotifyExTxnError (exTransaction DOWNSTREAM 4 True) EGRESS \<and>
   \<not> isUnidirectional (exTransaction DOWNSTREAM 3 False) \<and>
   \<not> shouldNotifyExTxnError (exTransaction DOWNSTREAM 3 False) EGRESS \<and>
   \<not> shouldNotifyExTxnError (exTransaction DOWNSTREAM 3 False) INGRESS \<and>
   \<not> isUnidirectional (newTransaction UPSTREAM 2) \<and>
   \<not> shouldNotifyExTxnError (newTransaction UPSTREAM 2) EGRESS"
  using shouldNotifyExTxnError_direction [of "exTransaction DOWNSTREAM 3 True" EGRESS]
    shouldNotifyExTxnError_direction [of "exTransaction DOWNSTREAM 3 True" INGRESS]
    shouldNotifyExTxnError_direction [of "exTransaction DOWNSTREAM 3 True" INGRESS_AND_EGRESS]
    shouldNotifyExTxnError_direction [of "exTransaction DOWNSTREAM 4 True" INGRESS]
    shouldNotifyExTxnError_direction [of "exTransaction DOWNSTREAM 4 True" EGRESS]
    shouldNotifyExTxnError_direction [of "exTransaction DOWNSTREAM 3 False" EGRESS]
    shouldNotifyExTxnError_direction [of "exTransaction DOWNSTREAM 3 False" INGRESS]
    shouldNotifyExTxnError_direction [of "newTransaction UPSTREAM 2" EGRESS]
  by (simp add: isUnidirectional_def isExTransaction_def isRemoteInitiated_def
      exTransaction_def newTransaction_def)

subsection \<open>The counter of pending byte events\<close>

lemma unat_u8_le: "unat (w :: 8 word) \<le> 255"
  using unsigned_less [of w, where 'a = nat] by simp

lemma increment_Inr:
  "incrementPendingByteEvents t = Inr t' \<Longrightarrow>
     unat (pendingByteEvents t) < 255 \<and>
     unat (pendingByteEvents t') = unat (pendingByteEvents t) + 1"
  by (auto simp: incrementPendingByteEvents_def word_less_nat_alt unat_word_ariths
      split: if_splits)

lemma decrement_Inr:
  "decrementPendingByteEvents t = Inr t' \<Longrightarrow>
     0 < unat (pendingByteEvents t) \<and>
     unat (pendingByteEvents t') = unat (pendingByteEvents t) - 1"
  by (auto simp: decrementPendingByteEvents_def word_greater_zero_iff unat_minus_one
      unat_gt_0 split: if_splits)

lemma pendingByteEventCalls_count:
  "pendingByteEventCalls t cs = Inr t' \<Longrightarrow>
     int (unat (pendingByteEvents t')) =
       int (unat (pendingByteEvents t)) + int (count_list cs Increment)
         - int (count_list cs Decrement)"
proof (induction cs arbitrary: t)
  case Nil
  then show ?case by simp
next
  case (Cons c cs)
  show ?case
  proof (cases c)
    case Increment
    with Cons.prems obtain t1 where s: "incrementPendingByteEvents t = Inr t1"
      and r: "pendingByteEventCalls t1 cs = Inr t'"
      by (auto split: sum.splits)
    from Cons.IH [OF r] increment_Inr [OF s] Increment show ?thesis by simp
  next
    case Decrement
    with Cons.prems obtain t1 where s: "decrementPendingByteEvents t = Inr t1"
      and r: "pendingByteEventCalls t1 cs = Inr t'"
      by (auto split: sum.splits)
    from Cons.IH [OF r] decrement_Inr [OF s] Decrement show ?thesis by simp
  qed
qed

text \<open>
  C9. The counter of pending byte events is an 8-bit unsigned value, so always
  between 0 and 255. \<^verbatim>\<open>incrementPendingByteEvents()\<close> succeeds exactly when the
  counter is below 255 and then adds one without wrapping (at most 255 events are
  outstanding at once); \<^verbatim>\<open>decrementPendingByteEvents()\<close> succeeds exactly when the
  counter is positive and then subtracts one, so it never goes below zero. After any
  sequence of calls that all succeed, the counter has moved by the number of
  increments minus the number of decrements.
\<close>

theorem pendingByteEvents_range:
  "unat (pendingByteEvents t) \<le> 255 \<and>
   (incrementPendingByteEvents t =
      (if unat (pendingByteEvents t) < 255
       then Inr (t\<lparr>pendingByteEvents := pendingByteEvents t + 1\<rparr>)
       else Inl CHECK_LT_pendingByteEvents)) \<and>
   (decrementPendingByteEvents t =
      (if 0 < unat (pendingByteEvents t)
       then Inr (t\<lparr>pendingByteEvents := pendingByteEvents t - 1\<rparr>)
       else Inl CHECK_GT_pendingByteEvents)) \<and>
   (incrementPendingByteEvents t = Inr t' \<longrightarrow>
      unat (pendingByteEvents t') = unat (pendingByteEvents t) + 1) \<and>
   (decrementPendingByteEvents t = Inr t' \<longrightarrow>
      unat (pendingByteEvents t') + 1 = unat (pendingByteEvents t)) \<and>
   (pendingByteEventCalls t cs = Inr t'' \<longrightarrow>
      int (unat (pendingByteEvents t'')) =
        int (unat (pendingByteEvents t)) + int (count_list cs Increment)
          - int (count_list cs Decrement))"
proof -
  have a: "unat (pendingByteEvents t) \<le> 255" by (rule unat_u8_le)
  have b: "incrementPendingByteEvents t =
      (if unat (pendingByteEvents t) < 255
       then Inr (t\<lparr>pendingByteEvents := pendingByteEvents t + 1\<rparr>)
       else Inl CHECK_LT_pendingByteEvents)"
    by (simp add: incrementPendingByteEvents_def word_less_nat_alt)
  have c: "decrementPendingByteEvents t =
      (if 0 < unat (pendingByteEvents t)
       then Inr (t\<lparr>pendingByteEvents := pendingByteEvents t - 1\<rparr>)
       else Inl CHECK_GT_pendingByteEvents)"
    by (simp add: decrementPendingByteEvents_def word_less_nat_alt)
  have d: "incrementPendingByteEvents t = Inr t' \<longrightarrow>
      unat (pendingByteEvents t') = unat (pendingByteEvents t) + 1"
    using increment_Inr by blast
  have e: "decrementPendingByteEvents t = Inr t' \<longrightarrow>
      unat (pendingByteEvents t') + 1 = unat (pendingByteEvents t)"
    using decrement_Inr [of t t'] by auto
  have f: "pendingByteEventCalls t cs = Inr t'' \<longrightarrow>
      int (unat (pendingByteEvents t'')) =
        int (unat (pendingByteEvents t)) + int (count_list cs Increment)
          - int (count_list cs Decrement)"
    using pendingByteEventCalls_count by blast
  from a b c d e f show ?thesis by blast
qed

theorem pendingByteEvents_range_witness:
  "incrementPendingByteEvents ((newTransaction DOWNSTREAM 1)\<lparr>pendingByteEvents := 254\<rparr>)
     = Inr ((newTransaction DOWNSTREAM 1)\<lparr>pendingByteEvents := 255\<rparr>) \<and>
   incrementPendingByteEvents ((newTransaction DOWNSTREAM 1)\<lparr>pendingByteEvents := 255\<rparr>)
     = Inl CHECK_LT_pendingByteEvents \<and>
   decrementPendingByteEvents (newTransaction DOWNSTREAM 1) = Inl CHECK_GT_pendingByteEvents \<and>
   decrementPendingByteEvents ((newTransaction DOWNSTREAM 1)\<lparr>pendingByteEvents := 1\<rparr>)
     = Inr (newTransaction DOWNSTREAM 1) \<and>
   pendingByteEventCalls (newTransaction DOWNSTREAM 1) [Increment, Increment, Decrement]
     = Inr ((newTransaction DOWNSTREAM 1)\<lparr>pendingByteEvents := 1\<rparr>) \<and>
   unat (pendingByteEvents ((newTransaction DOWNSTREAM 1)\<lparr>pendingByteEvents := 1\<rparr>))
     = 0 + 2 - 1"
  using pendingByteEvents_range [of "(newTransaction DOWNSTREAM 1)\<lparr>pendingByteEvents := 254\<rparr>"
      "(newTransaction DOWNSTREAM 1)\<lparr>pendingByteEvents := 255\<rparr>" "[]"
      "(newTransaction DOWNSTREAM 1)\<lparr>pendingByteEvents := 254\<rparr>"]
    pendingByteEvents_range [of "(newTransaction DOWNSTREAM 1)\<lparr>pendingByteEvents := 255\<rparr>"]
    pendingByteEvents_range [of "newTransaction DOWNSTREAM 1" _ "[Increment, Increment, Decrement]"
      "(newTransaction DOWNSTREAM 1)\<lparr>pendingByteEvents := 1\<rparr>"]
    pendingByteEvents_range [of "(newTransaction DOWNSTREAM 1)\<lparr>pendingByteEvents := 1\<rparr>"
      "newTransaction DOWNSTREAM 1"]
  by (simp add: newTransaction_def incrementPendingByteEvents_def
      decrementPendingByteEvents_def)

subsection \<open>The priority summary\<close>

text \<open>
  C10. \<^verbatim>\<open>getPrioritySummary()\<close> returns for every transaction: its third component
  is 0 when \<^verbatim>\<open>egressCalls_\<close> is zero and \<^verbatim>\<open>cumulativeRatio_ / egressCalls_\<close>
  otherwise, and the division is never given a zero divisor.
\<close>

theorem getPrioritySummary_total:
  "getPrioritySummary t =
     Some (insertDepth t, currentDepth t,
           if egressCalls t = 0 then 0
           else cumulativeRatio t / real (unat (egressCalls t)))"
  by (auto simp: getPrioritySummary_def double_div_def word_greater_zero_iff
      unsigned_eq_0_iff)

subsection \<open>When headers may be sent\<close>



















subsection \<open>Pushed transactions\<close>

text \<open>
  C3, as the claim states it, fails: the function does not look at the direction.
  On an upstream transaction, for which \<^verbatim>\<open>supportsPushTransactions()\<close> is false,
  with a transport that creates the transaction, it returns the new transaction and
  records its id.
\<close>

theorem newPushedTransaction_upstream_counterexample:
  "\<not> isDownstream (newTransaction UPSTREAM 1) \<and>
   \<not> supportsPushTransactions (pushTransport 2) (newTransaction UPSTREAM 1) \<and>
   newPushedTransaction (pushTransport 2) (newTransaction UPSTREAM 1) 0 =
     Inr ((newTransaction UPSTREAM 1)\<lparr>pushedTransactions := {2}\<rparr>,
          Some ((newTransaction DOWNSTREAM 2)\<lparr>assocStreamId := Some 1\<rparr>))"
  by (simp add: newPushedTransaction_def pushTransport_def newTransaction_def
      isDownstream_def supportsPushTransactions_def isEgressEOMSeen_def
      isEgressEOMQueued_def isEgressComplete_def)

text \<open>
  C3 (amended). \<^verbatim>\<open>newPushedTransaction(handler)\<close> fails its \<^verbatim>\<open>CHECK\<close> when the
  transaction is partially reliable. Otherwise, when \<^verbatim>\<open>isEgressEOMSeen()\<close> it
  returns null; whenever it returns null the transaction, and so its set of pushed
  transactions, is unchanged. When it returns a transaction, partial reliability is
  off, the egress EOM has not been seen, the transaction is the one the transport
  returned for \<^verbatim>\<open>newPushedTransaction(id_, handler)\<close>, and its id has been inserted
  into \<^verbatim>\<open>pushedTransactions_\<close>. If the transport builds its transactions with the
  \<^verbatim>\<open>assocStreamId\<close> it is handed, the associated stream id of the new transaction is
  the id of this one. The direction is not consulted.
\<close>

theorem newPushedTransaction_result:
  "(partiallyReliable t \<longrightarrow> newPushedTransaction tr t h = Inl CHECK_not_partiallyReliable) \<and>
   (\<not> partiallyReliable t \<and> isEgressEOMSeen t \<longrightarrow>
      newPushedTransaction tr t h = Inr (t, None)) \<and>
   (newPushedTransaction tr t h = Inr (t', None) \<longrightarrow> t' = t) \<and>
   (newPushedTransaction tr t h = Inr (t', Some txn) \<longrightarrow>
      \<not> partiallyReliable t \<and> \<not> isEgressEOMSeen t \<and>
      transport_newPushedTransaction tr (id' t) h = Some txn \<and>
      t' = t\<lparr>pushedTransactions := insert (id' txn) (pushedTransactions t)\<rparr> \<and>
      id' txn \<in> pushedTransactions t') \<and>
   ((\<forall>a hd n. transport_newPushedTransaction tr a hd = Some n \<longrightarrow> assocStreamId n = Some a) \<and>
    newPushedTransaction tr t h = Inr (t', Some txn) \<longrightarrow>
      assocStreamId txn = Some (id' t))"
  by (auto simp: newPushedTransaction_def split: if_splits option.splits)

theorem newPushedTransaction_result_witness:
  "newPushedTransaction (pushTransport 2)
     ((newTransaction DOWNSTREAM 1)\<lparr>partiallyReliable := True\<rparr>) 0
     = Inl CHECK_not_partiallyReliable \<and>
   isEgressEOMSeen ((newTransaction DOWNSTREAM 1)\<lparr>egressState := Egress_EOMQueued\<rparr>) \<and>
   newPushedTransaction (pushTransport 2)
     ((newTransaction DOWNSTREAM 1)\<lparr>egressState := Egress_EOMQueued\<rparr>) 0
     = Inr ((newTransaction DOWNSTREAM 1)\<lparr>egressState := Egress_EOMQueued\<rparr>, None) \<and>
   newPushedTransaction (pushTransport 2) (newTransaction DOWNSTREAM 1) 0 =
     Inr ((newTransaction DOWNSTREAM 1)\<lparr>pushedTransactions := {2}\<rparr>,
          Some ((newTransaction DOWNSTREAM 2)\<lparr>assocStreamId := Some 1\<rparr>)) \<and>
   id' ((newTransaction DOWNSTREAM 2)\<lparr>assocStreamId := Some 1\<rparr>)
     \<in> pushedTransactions ((newTransaction DOWNSTREAM 1)\<lparr>pushedTransactions := {2}\<rparr>) \<and>
   assocStreamId ((newTransaction DOWNSTREAM 2)\<lparr>assocStreamId := Some 1\<rparr>)
     = Some (id' (newTransaction DOWNSTREAM 1))"
  using newPushedTransaction_result [of
      "(newTransaction DOWNSTREAM 1)\<lparr>partiallyReliable := True\<rparr>" "pushTransport 2" 0]
    newPushedTransaction_result [of
      "(newTransaction DOWNSTREAM 1)\<lparr>egressState := Egress_EOMQueued\<rparr>" "pushTransport 2" 0]
    newPushedTransaction_result [of "newTransaction DOWNSTREAM 1" "pushTransport 2" 0
      "(newTransaction DOWNSTREAM 1)\<lparr>pushedTransactions := {2}\<rparr>"
      "(newTransaction DOWNSTREAM 2)\<lparr>assocStreamId := Some 1\<rparr>"]
  by (simp add: newPushedTransaction_def pushTransport_def newTransaction_def
      isEgressEOMSeen_def isEgressEOMQueued_def isEgressComplete_def)

subsection \<open>Partial reliability excludes chunking, trailers and push\<close>

lemma egressFind_senders:
  "egressFind Egress_HeadersSent Egress_sendChunkHeader = (Egress_ChunkHeaderSent, True)"
  "egressFind Egress_HeadersSent Egress_sendChunkTerminator = (Egress_HeadersSent, False)"
  "egressFind Egress_HeadersSent Egress_sendTrailers = (Egress_HeadersSent, False)"
  "egressFind Egress_ChunkBodySent Egress_sendChunkTerminator
     = (Egress_ChunkTerminatorSent, True)"
  "egressFind Egress_RegularBodySent Egress_sendTrailers = (Egress_TrailersSent, True)"
  by (simp_all add: egressFind_def tableFind_def egressTransitions_def)

text \<open>Without partial reliability, a sender whose transition is permitted is performed.\<close>

lemma senders_performed:
  assumes "\<not> partiallyReliable t"
  shows "canTransit efind (egressState t) Egress_sendChunkHeader \<Longrightarrow>
           \<exists>t'. sendChunkHeader efind tr t len = Inr t'"
    and "canTransit efind (egressState t) Egress_sendChunkTerminator \<Longrightarrow>
           \<exists>t'. sendChunkTerminator efind t = Inr t'"
    and "canTransit efind (egressState t) Egress_sendTrailers \<Longrightarrow>
           sendTrailers efind t trls =
             Inr (t\<lparr>egressState := fst (efind (egressState t) Egress_sendTrailers),
                    trailers := Some trls\<rparr>)"
  using assms
  by (auto simp: sendChunkHeader_def sendChunkTerminator_def sendTrailers_def transit_def
      canTransit_def split: prod.splits)

text \<open>
  C4. On a partially reliable transaction \<^verbatim>\<open>sendChunkHeader\<close>,
  \<^verbatim>\<open>sendChunkTerminator\<close>, \<^verbatim>\<open>sendTrailers\<close> and \<^verbatim>\<open>newPushedTransaction\<close> are
  refused: each ends in a failed \<^verbatim>\<open>CHECK\<close> and none is performed. For the three
  senders the failure is the one of the state machine when the transition is not
  permitted, and the one of partial reliability otherwise.
\<close>

theorem partiallyReliable_refused:
  assumes "partiallyReliable t"
  shows "sendChunkHeader efind tr t len =
           Inl (if canTransit efind (egressState t) Egress_sendChunkHeader
                then CHECK_not_partiallyReliable
                else CHECK_transit Egress_sendChunkHeader) \<and>
         sendChunkTerminator efind t =
           Inl (if canTransit efind (egressState t) Egress_sendChunkTerminator
                then CHECK_not_partiallyReliable
                else CHECK_transit Egress_sendChunkTerminator) \<and>
         sendTrailers efind t trls =
           Inl (if canTransit efind (egressState t) Egress_sendTrailers
                then CHECK_not_partiallyReliable
                else CHECK_transit Egress_sendTrailers) \<and>
         newPushedTransaction tr t handler = Inl CHECK_not_partiallyReliable"
  using assms
  by (simp add: sendChunkHeader_def sendChunkTerminator_def sendTrailers_def
      newPushedTransaction_def transit_def canTransit_def split: prod.splits)

theorem partiallyReliable_refused_witness:
  "partiallyReliable ((newTransaction DOWNSTREAM 1)\<lparr>egressState := Egress_HeadersSent,
      partiallyReliable := True\<rparr>) \<and>
   sendChunkHeader egressFind (pushTransport 2)
     ((newTransaction DOWNSTREAM 1)\<lparr>egressState := Egress_HeadersSent,
        partiallyReliable := True\<rparr>) 4
     = Inl CHECK_not_partiallyReliable \<and>
   sendChunkTerminator egressFind
     ((newTransaction DOWNSTREAM 1)\<lparr>egressState := Egress_HeadersSent,
        partiallyReliable := True\<rparr>)
     = Inl (CHECK_transit Egress_sendChunkTerminator) \<and>
   sendChunkTerminator egressFind
     ((newTransaction DOWNSTREAM 1)\<lparr>egressState := Egress_ChunkBodySent,
        partiallyReliable := True\<rparr>)
     = Inl CHECK_not_partiallyReliable \<and>
   sendTrailers egressFind
     ((newTransaction DOWNSTREAM 1)\<lparr>egressState := Egress_RegularBodySent,
        partiallyReliable := True\<rparr>) []
     = Inl CHECK_not_partiallyReliable \<and>
   newPushedTransaction (pushTransport 2)
     ((newTransaction DOWNSTREAM 1)\<lparr>egressState := Egress_HeadersSent,
        partiallyReliable := True\<rparr>) 0
     = Inl CHECK_not_partiallyReliable"
  using partiallyReliable_refused [of
      "(newTransaction DOWNSTREAM 1)\<lparr>egressState := Egress_HeadersSent,
         partiallyReliable := True\<rparr>"
      egressFind "pushTransport 2" 4 "[]" 0]
    partiallyReliable_refused [of
      "(newTransaction DOWNSTREAM 1)\<lparr>egressState := Egress_ChunkBodySent,
         partiallyReliable := True\<rparr>"
      egressFind "pushTransport 2" 4 "[]" 0]
    partiallyReliable_refused [of
      "(newTransaction DOWNSTREAM 1)\<lparr>egressState := Egress_RegularBodySent,
         partiallyReliable := True\<rparr>"
      egressFind "pushTransport 2" 4 "[]" 0]
  by (simp add: newTransaction_def canTransit_def egressFind_senders)

subsection \<open>Rejected ingress events\<close>

lemma tableFind_None:
  "map_of tbl (s, e) = None \<Longrightarrow> tableFind tbl s e = (s, False)"
  by (simp add: tableFind_def)

lemma tableFind_accepts:
  "snd (tableFind tbl s e) \<Longrightarrow> fst (tableFind tbl s e) \<in> snd ` set tbl"
  by (auto simp: tableFind_def split: option.splits dest!: map_of_SomeD intro: rev_image_eqI)

lemma validate_state:
  "validateIngressStateTransition ifind t e = (ok, t', cs) \<Longrightarrow>
     ingressState t' = (if ok then fst (ifind (ingressState t) e) else ingressState t) \<and>
     ok = snd (ifind (ingressState t) e)"
  by (auto simp: validateIngressStateTransition_def transit_def split: prod.splits if_splits)

lemma ingressEvents_enumerated:
  assumes "NumStates \<notin> snd ` set tbl"
  shows "ingressState t \<noteq> NumStates \<Longrightarrow>
           ingressState (fst (ingressEvents (tableFind tbl) t es)) \<noteq> NumStates"
proof (induction es arbitrary: t)
  case Nil
  then show ?case by simp
next
  case (Cons e es)
  obtain ok t' cs where v: "validateIngressStateTransition (tableFind tbl) t e = (ok, t', cs)"
    by (cases "validateIngressStateTransition (tableFind tbl) t e")
  note st = validate_state [OF v]
  show ?case
  proof (cases ok)
    case True
    with st have "snd (tableFind tbl (ingressState t) e)"
      and s: "ingressState t' = fst (tableFind tbl (ingressState t) e)" by simp_all
    from tableFind_accepts [OF this(1)] s assms have "ingressState t' \<noteq> NumStates" by metis
    from Cons.IH [OF this] v True show ?thesis by (auto split: prod.splits)
  next
    case False
    with st Cons.prems v show ?thesis by simp
  qed
qed

text \<open>
  C1. An ingress event for which the table has no entry at the current state is
  rejected: the machine does not move, \<^verbatim>\<open>validateIngressStateTransition\<close> returns
  false, the transaction is marked aborted, a protocol error is reported to the
  handler and an abort with \<^verbatim>\<open>PROTOCOL_ERROR\<close> is sent, and the ingress state (like
  the egress state) is left as it was. Started in one of its states, with a table
  whose entries lead to states only, the machine never reaches the sentinel
  \<^verbatim>\<open>NumStates\<close>, whatever events arrive.
\<close>

theorem rejected_ingress_event:
  "(map_of tbl (ingressState t, e) = None \<longrightarrow>
      transit (tableFind tbl) (ingressState t) e = (ingressState t, False) \<and>
      validateIngressStateTransition (tableFind tbl) t e =
        (False, t\<lparr>aborted := True\<rparr>,
         [ToHandler (Handler_onError INGRESS ProtocolError),
          ToTransport (Transport_sendAbort PROTOCOL_ERROR)]) \<and>
      ingressState (fst (snd (validateIngressStateTransition (tableFind tbl) t e)))
        = ingressState t \<and>
      egressState (fst (snd (validateIngressStateTransition (tableFind tbl) t e)))
        = egressState t) \<and>
   (NumStates \<notin> snd ` set tbl \<and> ingressState t \<noteq> NumStates \<longrightarrow>
      ingressState (fst (ingressEvents (tableFind tbl) t es)) \<noteq> NumStates)"
proof -
  have a: "map_of tbl (ingressState t, e) = None \<longrightarrow>
      transit (tableFind tbl) (ingressState t) e = (ingressState t, False) \<and>
      validateIngressStateTransition (tableFind tbl) t e =
        (False, t\<lparr>aborted := True\<rparr>,
         [ToHandler (Handler_onError INGRESS ProtocolError),
          ToTransport (Transport_sendAbort PROTOCOL_ERROR)])"
    by (simp add: validateIngressStateTransition_def transit_def tableFind_None)
  have b: "NumStates \<notin> snd ` set tbl \<and> ingressState t \<noteq> NumStates \<longrightarrow>
      ingressState (fst (ingressEvents (tableFind tbl) t es)) \<noteq> NumStates"
    using ingressEvents_enumerated by blast
  from a b show ?thesis by simp
qed

lemma ingressTransitions_enumerated: "NumStates \<notin> snd ` set ingressTransitions"
  by (simp add: ingressTransitions_def)

lemma ingressFind_simps:
  "ingressFind Start onBody = (Start, False)"
  "ingressFind Start onHeaders = (HeadersReceived, True)"
  "ingressFind HeadersReceived onBody = (RegularBodyReceived, True)"
  "ingressFind RegularBodyReceived onEOM = (EOMQueued, True)"
  "ingressFind EOMQueued onBody = (EOMQueued, False)"
  "ingressFind EOMQueued eomFlushed = (ReceivingDone, True)"
  by (simp_all add: ingressFind_def tableFind_def ingressTransitions_def)

lemma ingressEvents_example:
  "ingressEvents ingressFind (newTransaction DOWNSTREAM 1) [onHeaders, onBody, onEOM, onBody] =
     ((newTransaction DOWNSTREAM 1)\<lparr>ingressState := EOMQueued, aborted := True\<rparr>,
      [ToHandler (Handler_onError INGRESS ProtocolError),
       ToTransport (Transport_sendAbort PROTOCOL_ERROR)])"
  by (simp add: validateIngressStateTransition_def transit_def ingressFind_simps newTransaction_def)

lemma ingressState_newTransaction: "ingressState (newTransaction dir sid) = Start"
  by (simp add: newTransaction_def)

lemma ingressTransitions_Start_onBody: "map_of ingressTransitions (Start, onBody) = None"
  by (simp add: ingressTransitions_def)

theorem rejected_ingress_event_witness:
  "map_of ingressTransitions (ingressState (newTransaction DOWNSTREAM 1), onBody) = None \<and>
   validateIngressStateTransition ingressFind (newTransaction DOWNSTREAM 1) onBody =
     (False, (newTransaction DOWNSTREAM 1)\<lparr>aborted := True\<rparr>,
      [ToHandler (Handler_onError INGRESS ProtocolError),
       ToTransport (Transport_sendAbort PROTOCOL_ERROR)]) \<and>
   ingressState ((newTransaction DOWNSTREAM 1)\<lparr>aborted := True\<rparr>) = Start \<and>
   NumStates \<notin> snd ` set ingressTransitions \<and>
   ingressState (fst (ingressEvents ingressFind (newTransaction DOWNSTREAM 1)
     [onHeaders, onBody, onEOM, onBody])) = EOMQueued"
  using rejected_ingress_event [of ingressTransitions "newTransaction DOWNSTREAM 1" onBody
      "[onHeaders, onBody, onEOM, onBody]"]
    ingressTransitions_enumerated ingressEvents_example ingressTransitions_Start_onBody
  by (simp add: ingressFind_def ingressState_newTransaction)

subsection \<open>Pause and resume callbacks alternate\<close>

lemma update_cases:
  "updateHandlerPauseState limit t = (t', calls) \<Longrightarrow>
     (calls = [] \<and> handlerEgressPaused t' = handlerEgressPaused t) \<or>
     (calls = [ToHandler (if handlerEgressPaused t then Handler_onEgressResumed
                          else Handler_onEgressPaused)] \<and>
      handlerEgressPaused t' = (\<not> handlerEgressPaused t))"
  by (auto simp: updateHandlerPauseState_def Let_def split: if_splits)

lemma change_cases:
  "egressConditionChanged limit t c = (t', calls) \<Longrightarrow>
     (calls = [] \<and> handlerEgressPaused t' = handlerEgressPaused t) \<or>
     (calls = [ToHandler (if handlerEgressPaused t then Handler_onEgressResumed
                          else Handler_onEgressPaused)] \<and>
      handlerEgressPaused t' = (\<not> handlerEgressPaused t))"
  unfolding egressConditionChanged_def
  by (cases c) (auto dest!: update_cases)

lemma changes_alternate:
  "egressConditionsChanged limit t cs = (t', calls) \<Longrightarrow>
     alternates (handlerEgressPaused t) calls"
proof (induction cs arbitrary: t t' calls)
  case Nil
  then show ?case by simp
next
  case (Cons c cs)
  obtain t1 calls1 where s: "egressConditionChanged limit t c = (t1, calls1)"
    by (cases "egressConditionChanged limit t c")
  obtain t2 calls2 where r: "egressConditionsChanged limit t1 cs = (t2, calls2)"
    by (cases "egressConditionsChanged limit t1 cs")
  from Cons.prems s r have eq: "calls = calls1 @ calls2" by simp
  from change_cases [OF s] Cons.IH [OF r] eq show ?case by auto
qed

lemma alternates_take: "alternates p cs \<Longrightarrow> alternates p (take n cs)"
proof (induction cs arbitrary: p n)
  case Nil
  then show ?case by simp
next
  case (Cons c cs)
  then show ?case by (cases n) auto
qed

lemma alternates_counts:
  "alternates p cs \<Longrightarrow>
     (if p
      then count_list cs (ToHandler Handler_onEgressResumed)
             = count_list cs (ToHandler Handler_onEgressPaused) \<or>
           count_list cs (ToHandler Handler_onEgressResumed)
             = count_list cs (ToHandler Handler_onEgressPaused) + 1
      else count_list cs (ToHandler Handler_onEgressPaused)
             = count_list cs (ToHandler Handler_onEgressResumed) \<or>
           count_list cs (ToHandler Handler_onEgressPaused)
             = count_list cs (ToHandler Handler_onEgressResumed) + 1)"
proof (induction cs arbitrary: p)
  case Nil
  then show ?case by simp
next
  case (Cons c cs)
  from Cons.prems have "alternates (\<not> p) cs" by simp
  from Cons.IH [OF this] Cons.prems show ?case by (cases p) auto
qed

text \<open>
  C7. For a transaction whose handler is not paused at the start, and any sequence
  of changes on the egress side, the callbacks \<^verbatim>\<open>onEgressPaused\<close> and
  \<^verbatim>\<open>onEgressResumed\<close> delivered to the handler alternate strictly and begin with
  \<^verbatim>\<open>onEgressPaused\<close>; their numbers are equal or there is one more
  \<^verbatim>\<open>onEgressPaused\<close>; and at every moment no more \<^verbatim>\<open>onEgressResumed\<close> than
  \<^verbatim>\<open>onEgressPaused\<close> have been delivered.
\<close>

theorem egress_pause_callbacks_alternate:
  assumes "\<not> handlerEgressPaused t"
    and "egressConditionsChanged limit t cs = (t', calls)"
  shows "alternates False calls \<and>
         (count_list calls (ToHandler Handler_onEgressPaused)
            = count_list calls (ToHandler Handler_onEgressResumed) \<or>
          count_list calls (ToHandler Handler_onEgressPaused)
            = count_list calls (ToHandler Handler_onEgressResumed) + 1) \<and>
         (\<forall>n. count_list (take n calls) (ToHandler Handler_onEgressResumed)
                \<le> count_list (take n calls) (ToHandler Handler_onEgressPaused))"
proof -
  from changes_alternate [OF assms(2)] assms(1) have a: "alternates False calls" by simp
  from alternates_counts [OF a] have b:
    "count_list calls (ToHandler Handler_onEgressPaused)
       = count_list calls (ToHandler Handler_onEgressResumed) \<or>
     count_list calls (ToHandler Handler_onEgressPaused)
       = count_list calls (ToHandler Handler_onEgressResumed) + 1" by simp
  have c: "count_list (take n calls) (ToHandler Handler_onEgressResumed)
             \<le> count_list (take n calls) (ToHandler Handler_onEgressPaused)" for n
    using alternates_counts [OF alternates_take [OF a, of n]] by auto
  from a b c show ?thesis by blast
qed

text \<open>
  Flow control with a send window of 10 and a buffer limit of 10: fifteen bytes are
  buffered, ten are flushed and use up the window, the transport pauses and resumes,
  the window is opened by five, and the rest is flushed.
\<close>

lemma egressConditionsChanged_example:
  "egressConditionsChanged 10
     ((newTransaction DOWNSTREAM 1)\<lparr>useFlowControl := True, sendWindowSize := 10\<rparr>)
     [(False, 15, 10), (False, 5, 0), (True, 5, 0), (False, 5, 5), (False, 0, 5)] =
   ((newTransaction DOWNSTREAM 1)\<lparr>useFlowControl := True, sendWindowSize := 5\<rparr>,
    [ToHandler Handler_onEgressPaused, ToHandler Handler_onEgressResumed])"
  by (simp add: egressConditionChanged_def updateHandlerPauseState_def newTransaction_def)

theorem egress_pause_callbacks_alternate_witness:
  "\<not> handlerEgressPaused
       ((newTransaction DOWNSTREAM 1)\<lparr>useFlowControl := True, sendWindowSize := 10\<rparr>) \<and>
   egressConditionsChanged 10
     ((newTransaction DOWNSTREAM 1)\<lparr>useFlowControl := True, sendWindowSize := 10\<rparr>)
     [(False, 15, 10), (False, 5, 0), (True, 5, 0), (False, 5, 5), (False, 0, 5)] =
   ((newTransaction DOWNSTREAM 1)\<lparr>useFlowControl := True, sendWindowSize := 5\<rparr>,
    [ToHandler Handler_onEgressPaused, ToHandler Handler_onEgressResumed]) \<and>
   alternates False [ToHandler Handler_onEgressPaused, ToHandler Handler_onEgressResumed]"
  using egress_pause_callbacks_alternate [OF _ egressConditionsChanged_example]
    egressConditionsChanged_example
  by (simp add: newTransaction_def)

subsection \<open>Pausing and resuming ingress at once\<close>

lemma handlerCalls_append: "handlerCalls (xs @ ys) = handlerCalls xs @ handlerCalls ys"
  by (induction xs rule: handlerCalls.induct) simp_all

lemma processIngress_calls:
  "handlerCalls (snd (processIngress ifind t e)) = List.map_filter matchingCallback [e]"
  by (simp add: processIngress_def split: option.splits)

lemma drainDeferredIngress_calls:
  "handlerCalls (snd (drainDeferredIngress ifind t q)) = List.map_filter matchingCallback q"
proof (induction q arbitrary: t)
  case Nil
  then show ?case by simp
next
  case (Cons e q)
  obtain t1 cs1 where p: "processIngress ifind t e = (t1, cs1)"
    by (cases "processIngress ifind t e")
  obtain t2 cs2 where d: "drainDeferredIngress ifind t1 q = (t2, cs2)"
    by (cases "drainDeferredIngress ifind t1 q")
  from processIngress_calls [of ifind t e] p
  have c1: "handlerCalls cs1 = List.map_filter matchingCallback [e]" by simp
  from Cons.IH [of t1] d have c2: "handlerCalls cs2 = List.map_filter matchingCallback q"
    by simp
  from p d c1 c2 show ?case
    by (simp add: handlerCalls_append split: option.splits)
qed

text \<open>
  In general the pair delivers what the deferred queue holds: on a transaction that
  is paused already, its \<^verbatim>\<open>resumeIngress()\<close> is also the resume of the earlier
  pause.
\<close>

lemma pauseThenResumeIngress_calls:
  "handlerCalls (snd (pauseThenResumeIngress ifind t)) =
     List.map_filter matchingCallback
       (case deferredIngress t of None \<Rightarrow> [] | Some q \<Rightarrow> q)"
proof (cases "deferredIngress t")
  case None
  then show ?thesis
    by (simp add: pauseThenResumeIngress_def pauseIngress_def resumeIngress_def)
next
  case (Some q)
  obtain t1 cs where d: "drainDeferredIngress ifind (t\<lparr>ingressPaused := False\<rparr>) q = (t1, cs)"
    by (cases "drainDeferredIngress ifind (t\<lparr>ingressPaused := False\<rparr>) q")
  from drainDeferredIngress_calls [of ifind "t\<lparr>ingressPaused := False\<rparr>" q] d
  have "handlerCalls cs = List.map_filter matchingCallback q" by simp
  with Some d show ?thesis
    by (simp add: pauseThenResumeIngress_def pauseIngress_def resumeIngress_def)
qed

text \<open>With nothing deferred, the pair leaves an unpaused transaction as it was.\<close>

lemma pauseThenResumeIngress_unpaused:
  "\<not> ingressPaused t \<Longrightarrow> noDeferredIngress t \<Longrightarrow>
     pauseThenResumeIngress ifind t =
       (t, [ToTransport Transport_pauseIngress, ToTransport Transport_resumeIngress])"
  by (auto simp: noDeferredIngress_def pauseThenResumeIngress_def pauseIngress_def
      resumeIngress_def split: option.splits)

text \<open>
  A transaction that is not paused holds no deferred event: events are deferred only
  while it is paused, and \<^verbatim>\<open>resumeIngress()\<close> drains them all.
\<close>

lemma onIngress_deferred:
  assumes "\<not> ingressPaused t \<longrightarrow> noDeferredIngress t"
  shows "\<not> ingressPaused (fst (onIngress ifind t e)) \<longrightarrow>
           noDeferredIngress (fst (onIngress ifind t e))"
  using assms
  by (auto simp: onIngress_def validateIngressStateTransition_def mustQueueIngress_def
      processIngress_def noDeferredIngress_def
      split: prod.splits if_splits option.splits)

lemma resumeIngress_deferred: "noDeferredIngress (fst (resumeIngress ifind t))"
  by (simp add: resumeIngress_def noDeferredIngress_def split: option.splits prod.splits)

lemma ingressCall_deferred:
  assumes "\<not> ingressPaused t \<longrightarrow> noDeferredIngress t"
  shows "\<not> ingressPaused (fst (ingressCall ifind t c)) \<longrightarrow>
           noDeferredIngress (fst (ingressCall ifind t c))"
proof (cases c)
  case (Call_onIngress e)
  with onIngress_deferred [OF assms, of ifind e] show ?thesis by simp
next
  case Call_pauseIngress
  then show ?thesis by (simp add: pauseIngress_def)
next
  case Call_resumeIngress
  with resumeIngress_deferred [of ifind t] show ?thesis by simp
qed

lemma ingressCalls_deferred:
  "\<not> ingressPaused t \<longrightarrow> noDeferredIngress t \<Longrightarrow>
     \<not> ingressPaused (fst (ingressCalls ifind t cs)) \<longrightarrow>
       noDeferredIngress (fst (ingressCalls ifind t cs))"
proof (induction cs arbitrary: t)
  case Nil
  then show ?case by simp
next
  case (Cons c cs)
  obtain t1 cs1 where c1: "ingressCall ifind t c = (t1, cs1)"
    by (cases "ingressCall ifind t c")
  from ingressCall_deferred [OF Cons.prems, of ifind c] c1
  have "\<not> ingressPaused t1 \<longrightarrow> noDeferredIngress t1" by simp
  note ih = Cons.IH [OF this]
  obtain t2 cs2 where c2: "ingressCalls ifind t1 cs = (t2, cs2)"
    by (cases "ingressCalls ifind t1 cs")
  from ih c1 c2 show ?case by simp
qed

lemma ingressCalls_append:
  "ingressCalls ifind t (xs @ ys) =
     (case ingressCalls ifind t xs of
        (t1, cs1) \<Rightarrow> (case ingressCalls ifind t1 ys of (t2, cs2) \<Rightarrow> (t2, cs1 @ cs2)))"
  by (induction xs arbitrary: t) (simp_all split: prod.splits)

lemma ingressCalls_pause_resume:
  "ingressCalls ifind t (Call_pauseIngress # Call_resumeIngress # cs) =
     (case pauseThenResumeIngress ifind t of
        (t1, cs1) \<Rightarrow> (case ingressCalls ifind t1 cs of (t2, cs2) \<Rightarrow> (t2, cs1 @ cs2)))"
  by (simp add: pauseThenResumeIngress_def split: prod.splits)

lemma newTransaction_deferred:
  "\<not> ingressPaused (newTransaction dir sid) \<longrightarrow> noDeferredIngress (newTransaction dir sid)"
  by (simp add: newTransaction_def noDeferredIngress_def)

text \<open>
  C8. Take any transaction met after a sequence of ingress events, pauses and resumes
  on a new transaction, at a moment when its ingress is not paused.
  \<^verbatim>\<open>pauseIngress()\<close> immediately followed by \<^verbatim>\<open>resumeIngress()\<close> makes no call to
  the handler (the transport alone sees the two calls) and leaves the ingress state,
  the deferred queue and the whole transaction as they were. Whatever calls follow,
  the transaction they end in and the callbacks the handler receives over the whole
  sequence are the same as if the two calls had not been made.
\<close>

theorem pause_resume_noop:
  "ingressCalls ifind (newTransaction dir sid) cs = (t, calls) \<and> \<not> ingressPaused t \<longrightarrow>
     pauseThenResumeIngress ifind t =
       (t, [ToTransport Transport_pauseIngress, ToTransport Transport_resumeIngress]) \<and>
     handlerCalls (snd (pauseThenResumeIngress ifind t)) = [] \<and>
     ingressState (fst (pauseThenResumeIngress ifind t)) = ingressState t \<and>
     deferredIngress (fst (pauseThenResumeIngress ifind t)) = deferredIngress t \<and>
     fst (ingressCalls ifind (newTransaction dir sid)
            (cs @ Call_pauseIngress # Call_resumeIngress # cs')) =
       fst (ingressCalls ifind (newTransaction dir sid) (cs @ cs')) \<and>
     handlerCalls (snd (ingressCalls ifind (newTransaction dir sid)
                          (cs @ Call_pauseIngress # Call_resumeIngress # cs'))) =
       handlerCalls (snd (ingressCalls ifind (newTransaction dir sid) (cs @ cs')))"
proof (intro impI)
  assume h: "ingressCalls ifind (newTransaction dir sid) cs = (t, calls) \<and> \<not> ingressPaused t"
  then have r: "ingressCalls ifind (newTransaction dir sid) cs = (t, calls)"
    and np: "\<not> ingressPaused t" by simp_all
  from ingressCalls_deferred [OF newTransaction_deferred, of ifind dir sid cs] r np
  have nd: "noDeferredIngress t" by simp
  note pr = pauseThenResumeIngress_unpaused [OF np nd, of ifind]
  have a: "handlerCalls (snd (pauseThenResumeIngress ifind t)) = []"
    using pr by simp
  have b: "ingressState (fst (pauseThenResumeIngress ifind t)) = ingressState t"
    using pr by simp
  have c: "deferredIngress (fst (pauseThenResumeIngress ifind t)) = deferredIngress t"
    using pr by simp
  obtain t2 cs2 where r2: "ingressCalls ifind t cs' = (t2, cs2)"
    by (cases "ingressCalls ifind t cs'")
  have with_pair: "ingressCalls ifind (newTransaction dir sid)
      (cs @ Call_pauseIngress # Call_resumeIngress # cs') =
      (t2, calls @ [ToTransport Transport_pauseIngress, ToTransport Transport_resumeIngress]
             @ cs2)"
    by (simp only: ingressCalls_append ingressCalls_pause_resume r r2 pr prod.case)
  have without: "ingressCalls ifind (newTransaction dir sid) (cs @ cs') = (t2, calls @ cs2)"
    by (simp only: ingressCalls_append r r2 prod.case)
  have d: "fst (ingressCalls ifind (newTransaction dir sid)
            (cs @ Call_pauseIngress # Call_resumeIngress # cs')) =
       fst (ingressCalls ifind (newTransaction dir sid) (cs @ cs'))"
    using with_pair without by simp
  have e: "handlerCalls (snd (ingressCalls ifind (newTransaction dir sid)
                          (cs @ Call_pauseIngress # Call_resumeIngress # cs'))) =
       handlerCalls (snd (ingressCalls ifind (newTransaction dir sid) (cs @ cs')))"
    using with_pair without by (simp add: handlerCalls_append)
  from pr a b c d e
  show "pauseThenResumeIngress ifind t =
       (t, [ToTransport Transport_pauseIngress, ToTransport Transport_resumeIngress]) \<and>
     handlerCalls (snd (pauseThenResumeIngress ifind t)) = [] \<and>
     ingressState (fst (pauseThenResumeIngress ifind t)) = ingressState t \<and>
     deferredIngress (fst (pauseThenResumeIngress ifind t)) = deferredIngress t \<and>
     fst (ingressCalls ifind (newTransaction dir sid)
            (cs @ Call_pauseIngress # Call_resumeIngress # cs')) =
       fst (ingressCalls ifind (newTransaction dir sid) (cs @ cs')) \<and>
     handlerCalls (snd (ingressCalls ifind (newTransaction dir sid)
                          (cs @ Call_pauseIngress # Call_resumeIngress # cs'))) =
       handlerCalls (snd (ingressCalls ifind (newTransaction dir sid) (cs @ cs')))"
    by blast
qed

text \<open>
  A downstream transaction receives its headers, is paused by its handler, receives
  body while paused and is resumed, which delivers the body. Then the pair of calls
  changes nothing, before the end of the message arrives.
\<close>

lemma ingressCalls_example:
  "ingressCalls ingressFind (newTransaction DOWNSTREAM 1)
     [Call_onIngress onHeaders, Call_pauseIngress, Call_onIngress onBody,
      Call_resumeIngress] =
     ((newTransaction DOWNSTREAM 1)\<lparr>ingressState := RegularBodyReceived,
        deferredIngress := Some []\<rparr>,
      [ToHandler Handler_onHeadersComplete, ToTransport Transport_pauseIngress,
       ToTransport Transport_resumeIngress, ToHandler Handler_onBody])"
  by (simp add: onIngress_def pauseIngress_def resumeIngress_def
      validateIngressStateTransition_def transit_def ingressFind_simps processIngress_def
      mustQueueIngress_def newTransaction_def)

lemma ingressCalls_example_continued:
  "handlerCalls (snd (ingressCalls ingressFind (newTransaction DOWNSTREAM 1)
     ([Call_onIngress onHeaders, Call_pauseIngress, Call_onIngress onBody,
       Call_resumeIngress] @ [Call_onIngress onEOM]))) =
     [Handler_onHeadersComplete, Handler_onBody, Handler_onEOM]"
  by (simp add: onIngress_def pauseIngress_def resumeIngress_def
      validateIngressStateTransition_def transit_def ingressFind_simps processIngress_def
      mustQueueIngress_def newTransaction_def)

theorem pause_resume_noop_witness:
  "ingressCalls ingressFind (newTransaction DOWNSTREAM 1)
     [Call_onIngress onHeaders, Call_pauseIngress, Call_onIngress onBody,
      Call_resumeIngress] =
     ((newTransaction DOWNSTREAM 1)\<lparr>ingressState := RegularBodyReceived,
        deferredIngress := Some []\<rparr>,
      [ToHandler Handler_onHeadersComplete, ToTransport Transport_pauseIngress,
       ToTransport Transport_resumeIngress, ToHandler Handler_onBody]) \<and>
   \<not> ingressPaused ((newTransaction DOWNSTREAM 1)\<lparr>ingressState := RegularBodyReceived,
        deferredIngress := Some []\<rparr>) \<and>
   pauseThenResumeIngress ingressFind
     ((newTransaction DOWNSTREAM 1)\<lparr>ingressState := RegularBodyReceived,
        deferredIngress := Some []\<rparr>) =
     ((newTransaction DOWNSTREAM 1)\<lparr>ingressState := RegularBodyReceived,
        deferredIngress := Some []\<rparr>,
      [ToTransport Transport_pauseIngress, ToTransport Transport_resumeIngress]) \<and>
   handlerCalls (snd (ingressCalls ingressFind (newTransaction DOWNSTREAM 1)
     ([Call_onIngress onHeaders, Call_pauseIngress, Call_onIngress onBody,
       Call_resumeIngress] @
      Call_pauseIngress # Call_resumeIngress # [Call_onIngress onEOM]))) =
     [Handler_onHeadersComplete, Handler_onBody, Handler_onEOM]"
  using pause_resume_noop [of ingressFind DOWNSTREAM 1
      "[Call_onIngress onHeaders, Call_pauseIngress, Call_onIngress onBody,
        Call_resumeIngress]"
      "(newTransaction DOWNSTREAM 1)\<lparr>ingressState := RegularBodyReceived,
         deferredIngress := Some []\<rparr>"
      "[ToHandler Handler_onHeadersComplete, ToTransport Transport_pauseIngress,
        ToTransport Transport_resumeIngress, ToHandler Handler_onBody]"
      "[Call_onIngress onEOM]"]
    ingressCalls_example ingressCalls_example_continued
  by (simp add: newTransaction_def)

end
